theory Spec2Isabelle
  imports Main
begin

section \<open>Strings and JSON values\<close>

text \<open>
  A Python \<^verbatim>\<open>str\<close> is modelled as a \<^typ>\<open>string\<close>: a list of code points below 256
  (the Latin-1 range). On that range \<^verbatim>\<open>str.lower\<close> maps one character to one
  character and \<^verbatim>\<open>str.strip\<close> removes the characters for which \<^verbatim>\<open>str.isspace\<close>
  holds; both are written out below. Text with code points above 255 is outside the model.
\<close>

definition py_isspace :: "char \<Rightarrow> bool" where
  "py_isspace c =
     (let n = (of_char c :: nat)
      in (9 \<le> n \<and> n \<le> 13) \<or> (28 \<le> n \<and> n \<le> 32) \<or> n = 133 \<or> n = 160)"

definition py_lower_char :: "char \<Rightarrow> char" where
  "py_lower_char c =
     (let n = (of_char c :: nat)
      in if (65 \<le> n \<and> n \<le> 90) \<or> (192 \<le> n \<and> n \<le> 222 \<and> n \<noteq> 215)
         then char_of (n + 32) else c)"

definition py_lower :: "string \<Rightarrow> string" where
  "py_lower s = map py_lower_char s"

definition py_strip :: "string \<Rightarrow> string" where
  "py_strip s = rev (dropWhile py_isspace (rev (dropWhile py_isspace s)))"

text \<open>
  The values \<^verbatim>\<open>json.dumps\<close> and \<^verbatim>\<open>json.loads\<close> exchange. A Python \<^verbatim>\<open>dict\<close> is an
  association list in insertion order, looked up with \<^const>\<open>map_of\<close>; floats do not
  occur in the knowledge base and are left out.
\<close>

datatype json =
    JNull
  | JBool bool
  | JInt int
  | JStr string
  | JArr "json list"
  | JObj "(string \<times> json) list"

fun str_nat :: "nat \<Rightarrow> string" where
  "str_nat n =
     (if n < 10 then [''0123456789'' ! n]
      else str_nat (n div 10) @ [''0123456789'' ! (n mod 10)])"

declare str_nat.simps [simp del]

definition str_int :: "int \<Rightarrow> string" where
  "str_int i = (if i < 0 then ''-'' @ str_nat (nat (- i)) else str_nat (nat i))"

definition hex_digit :: "nat \<Rightarrow> char" where
  "hex_digit n = ''0123456789abcdef'' ! (n mod 16)"

text \<open>The escapes of \<^verbatim>\<open>json.dumps\<close> with its default \<^verbatim>\<open>ensure_ascii=True\<close>.\<close>

definition json_escape_char :: "char \<Rightarrow> string" where
  \<open>json_escape_char c =
     (let n = (of_char c :: nat)
      in if n = 34 then [CHR 0x5C, CHR 0x22]
         else if n = 92 then [CHR 0x5C, CHR 0x5C]
         else if n = 10 then [CHR 0x5C, CHR ''n'']
         else if n = 13 then [CHR 0x5C, CHR ''r'']
         else if n = 9 then [CHR 0x5C, CHR ''t'']
         else if n = 8 then [CHR 0x5C, CHR ''b'']
         else if n = 12 then [CHR 0x5C, CHR ''f'']
         else if n < 32 \<or> 127 \<le> n
           then [CHR 0x5C, CHR ''u'', CHR ''0'', CHR ''0'', hex_digit (n div 16), hex_digit n]
         else [c])\<close>

definition json_quote :: "string \<Rightarrow> string" where
  "json_quote s = [CHR 0x22] @ concat (map json_escape_char s) @ [CHR 0x22]"

fun join :: "string \<Rightarrow> string list \<Rightarrow> string" where
  "join sep [] = []"
| "join sep [x] = x"
| "join sep (x # y # ys) = x @ sep @ join sep (y # ys)"

fun json_dumps :: "json \<Rightarrow> string" where
  "json_dumps JNull = ''null''"
| "json_dumps (JBool b) = (if b then ''true'' else ''false'')"
| "json_dumps (JInt i) = str_int i"
| "json_dumps (JStr s) = json_quote s"
| "json_dumps (JArr xs) = ''['' @ join '', '' (map json_dumps xs) @ '']''"
| "json_dumps (JObj kvs) =
     ''{'' @ join '', '' (map (\<lambda>kv. json_quote (fst kv) @ '': '' @ json_dumps (snd kv)) kvs) @ ''}''"

section \<open>The NLP concept knowledge base and its lookup tool\<close>

definition NLP_REFERENCE_KB :: "(string \<times> json) list" where
  "NLP_REFERENCE_KB =
   [(''transformer'', JObj
       [(''definition'', JStr ''A neural architecture built around self-attention for sequence modeling.''),
        (''key_paper'', JStr ''Attention Is All You Need''),
        (''year'', JInt 2017),
        (''keywords'', JArr [JStr ''self-attention'', JStr ''encoder-decoder'', JStr ''parallelization'']),
        (''category'', JStr ''sequence modeling architecture'')]),
    (''self-attention'', JObj
       [(''definition'', JStr ''An attention mechanism where each token attends to all tokens in the same sequence.''),
        (''key_paper'', JStr ''Attention Is All You Need''),
        (''year'', JInt 2017),
        (''keywords'', JArr [JStr ''query'', JStr ''key'', JStr ''value'', JStr ''attention weights'']),
        (''category'', JStr ''attention mechanism'')]),
    (''bert'', JObj
       [(''definition'', JStr ''A bidirectional Transformer encoder model pretrained with masked language modeling.''),
        (''key_paper'', JStr ''BERT: Pre-training of Deep Bidirectional Transformers for Language Understanding''),
        (''year'', JInt 2018),
        (''keywords'', JArr [JStr ''masked language modeling'', JStr ''fine-tuning'', JStr ''pretraining'']),
        (''category'', JStr ''encoder-only transformer'')]),
    (''tokenization'', JObj
       [(''definition'', JStr ''The process of splitting text into units (tokens) used by NLP models.''),
        (''key_paper'', JStr ''N/A''),
        (''year'', JNull),
        (''keywords'', JArr [JStr ''subword'', JStr ''BPE'', JStr ''WordPiece'']),
        (''category'', JStr ''preprocessing'')])]"

definition nlp_concept_kb_lookup :: "string \<Rightarrow> string" where
  "nlp_concept_kb_lookup term =
     (let key = py_strip (py_lower term)
      in case map_of NLP_REFERENCE_KB key of
           Some entry \<Rightarrow> json_dumps entry
         | None \<Rightarrow> json_dumps (JObj [(''error'', JStr ''concept not found.'')]))"

section \<open>Messages, agent state and the external collaborators\<close>

record tool_call =
  tc_name :: string
  tc_args :: "(string \<times> json) list"
  tc_id :: string

text \<open>
  The four message classes of the program. A \<open>ToolMessage\<close> carries its content, the
  echoed tool name and the \<open>tool_call_id\<close> that links it to its request.
\<close>

datatype message =
    SystemMessage string
  | HumanMessage string
  | AIMessage string "tool_call list"
  | ToolMessage string string string

fun content :: "message \<Rightarrow> string" where
  "content (SystemMessage c) = c"
| "content (HumanMessage c) = c"
| "content (AIMessage c tcs) = c"
| "content (ToolMessage c n i) = c"

text \<open>\<^verbatim>\<open>getattr(msg, "tool_calls", None)\<close>: only an \<open>AIMessage\<close> has the attribute.\<close>

fun tool_calls :: "message \<Rightarrow> tool_call list option" where
  "tool_calls (AIMessage c tcs) = Some tcs"
| "tool_calls m = None"

fun is_human :: "message \<Rightarrow> bool" where
  "is_human (HumanMessage c) = True"
| "is_human m = False"

fun tool_call_id :: "message \<Rightarrow> string option" where
  "tool_call_id (ToolMessage c n i) = Some i"
| "tool_call_id m = None"

record agent_state =
  messages :: "message list"
  steps :: int

text \<open>Every exception of the program is a value; a raise is a result \<open>Inl e\<close>.\<close>

datatype error =
    LLMError
  | ToolError
  | ValidationError
  | JSONDecodeError
  | IndexError
  | AttributeError
  | KeyError

text \<open>
  The collaborators that are not code of the program: the chat model (plain, and with the
  tools bound), the Wikipedia runner and the parser \<^verbatim>\<open>json.loads\<close>. Each may raise.
  Within one run every call of the chat model sees a longer message list than the call
  before, so a function of the message list covers any sequence of answers.
\<close>

record env =
  llm_invoke :: "message list \<Rightarrow> error + message"
  llm_with_tools_invoke :: "message list \<Rightarrow> error + message"
  wikipedia_runner_run :: "string \<Rightarrow> error + string"
  json_loads :: "string \<Rightarrow> error + json"

definition SYSTEM_MESSAGE :: message where
  "SYSTEM_MESSAGE = SystemMessage
     (''You are a helpful assistant.'' @ [CHR 0x0A] @
      ''- Use wikipedia_search for broad factual/contextual information.'' @ [CHR 0x0A] @
      ''- Use nlp_concept_kb_lookup for structured NLP concept metadata.'' @ [CHR 0x0A] @
      ''- If a tool returns an error JSON, handle it and ask a short clarification.'' @ [CHR 0x0A] @
      ''- Be concise.'')"

section \<open>Tools\<close>

datatype tool = wikipedia_search | nlp_concept_kb_lookup_tool

fun tool_name :: "tool \<Rightarrow> string" where
  "tool_name wikipedia_search = ''wikipedia_search''"
| "tool_name nlp_concept_kb_lookup_tool = ''nlp_concept_kb_lookup''"

definition TOOLS :: "tool list" where
  "TOOLS = [wikipedia_search, nlp_concept_kb_lookup_tool]"

definition TOOLS_BY_NAME :: "string \<Rightarrow> tool option" where
  "TOOLS_BY_NAME = map_of (map (\<lambda>t. (tool_name t, t)) TOOLS)"

text \<open>
  \<^verbatim>\<open>tool_fn.invoke(tool_args)\<close>: the arguments are checked against the signature of the
  decorated function (one string argument), then the function body runs.
\<close>

fun tool_invoke :: "env \<Rightarrow> tool \<Rightarrow> (string \<times> json) list \<Rightarrow> error + string" where
  "tool_invoke env wikipedia_search tool_args =
     (case map_of tool_args ''query'' of
        Some (JStr query) \<Rightarrow> wikipedia_runner_run env query
      | _ \<Rightarrow> Inl ValidationError)"
| "tool_invoke env nlp_concept_kb_lookup_tool tool_args =
     (case map_of tool_args ''term'' of
        Some (JStr term) \<Rightarrow> Inr (nlp_concept_kb_lookup term)
      | _ \<Rightarrow> Inl ValidationError)"

section \<open>The nodes\<close>

text \<open>
  A node returns a partial update that the graph merges into the state: \<open>messages\<close> by
  appending (the reducer \<^verbatim>\<open>add_messages\<close>, for messages with fresh ids), \<open>steps\<close> by
  overwriting. The \<^verbatim>\<open>print\<close> calls of the tools node are left out.
\<close>

definition node_llm :: "env \<Rightarrow> agent_state \<Rightarrow> error + agent_state" where
  "node_llm env state =
     (case llm_with_tools_invoke env (SYSTEM_MESSAGE # messages state) of
        Inl e \<Rightarrow> Inl e
      | Inr response \<Rightarrow>
          Inr (state\<lparr>messages := messages state @ [response], steps := steps state + 1\<rparr>))"

text \<open>
  The tools node: the body of its \<^verbatim>\<open>for\<close> loop for one tool call (either branch builds
  one \<open>ToolMessage\<close>, or the invocation raises), and the loop with its accumulator.
\<close>

definition run_tool_call :: "env \<Rightarrow> tool_call \<Rightarrow> error + message" where
  "run_tool_call env tc =
     (case TOOLS_BY_NAME (tc_name tc) of
        None \<Rightarrow> Inr (ToolMessage (''Unknown tool: '' @ tc_name tc) (tc_name tc) (tc_id tc))
      | Some tool_fn \<Rightarrow>
          (case tool_invoke env tool_fn (tc_args tc) of
             Inl e \<Rightarrow> Inl e
           | Inr result \<Rightarrow> Inr (ToolMessage result (tc_name tc) (tc_id tc))))"

fun run_tool_calls :: "env \<Rightarrow> tool_call list \<Rightarrow> message list \<Rightarrow> error + message list" where
  "run_tool_calls env [] tool_messages = Inr tool_messages"
| "run_tool_calls env (tc # rest) tool_messages =
     (case run_tool_call env tc of
        Inl e \<Rightarrow> Inl e
      | Inr tool_message \<Rightarrow> run_tool_calls env rest (tool_messages @ [tool_message]))"

definition node_tools :: "env \<Rightarrow> agent_state \<Rightarrow> error + agent_state" where
  "node_tools env state =
     (if messages state = [] then Inl IndexError
      else case tool_calls (last (messages state)) of
        None \<Rightarrow> Inl AttributeError
      | Some tcs \<Rightarrow>
          (case run_tool_calls env tcs [] of
             Inl e \<Rightarrow> Inl e
           | Inr tool_messages \<Rightarrow>
               Inr (state\<lparr>messages := messages state @ tool_messages,
                          steps := steps state + 1\<rparr>)))"

definition MAX_STEPS :: int where
  "MAX_STEPS = 6"

text \<open>
  The source compares with the module constant \<open>MAX_STEPS\<close>; here the bound is the first
  argument, so that the same routing can be read with another budget.
\<close>

definition route_after_llm :: "int \<Rightarrow> agent_state \<Rightarrow> error + string" where
  "route_after_llm max_steps state =
     (if steps state \<ge> max_steps then Inr ''end''
      else if messages state = [] then Inl IndexError
      else case tool_calls (last (messages state)) of
        None \<Rightarrow> Inr ''end''
      | Some [] \<Rightarrow> Inr ''end''
      | Some (tc # rest) \<Rightarrow> Inr ''continue'')"

definition ROUTER_SYSTEM_MESSAGE :: message where
  \<open>ROUTER_SYSTEM_MESSAGE = SystemMessage
     (''You are a router for an NLP-only assistant.'' @ [CHR 0x0A] @ [CHR 0x0A] @
      ''Return STRICT JSON only:'' @ [CHR 0x0A] @
      ''- {"route":"in_domain"} if the question is about NLP (tokenization, embeddings, attention, Transformers, LLMs, etc.)'' @ [CHR 0x0A] @
      ''- {"route":"out_of_domain"} otherwise'' @ [CHR 0x0A])\<close>

definition last_user_text :: "message list \<Rightarrow> string" where
  "last_user_text msgs =
     (case find is_human (rev msgs) of Some msg \<Rightarrow> content msg | None \<Rightarrow> [])"

text \<open>
  The chat model is called outside the \<^verbatim>\<open>try\<close>, so its failure propagates; inside it,
  a parse error and the \<^verbatim>\<open>AttributeError\<close> of \<^verbatim>\<open>payload.get\<close> on a payload that is no
  \<^verbatim>\<open>dict\<close> are both caught.
\<close>

definition route_domain_llm :: "env \<Rightarrow> agent_state \<Rightarrow> error + string" where
  "route_domain_llm env state =
     (let user_text = last_user_text (messages state);
          router_messages = [ROUTER_SYSTEM_MESSAGE, HumanMessage user_text]
      in case llm_invoke env router_messages of
           Inl e \<Rightarrow> Inl e
         | Inr response \<Rightarrow>
             (case json_loads env (py_strip (content response)) of
                Inl e \<Rightarrow> Inr ''in_domain''
              | Inr (JObj payload) \<Rightarrow>
                  (if map_of payload ''route'' = Some (JStr ''out_of_domain'')
                   then Inr ''out_of_domain'' else Inr ''in_domain'')
              | Inr other \<Rightarrow> Inr ''in_domain''))"

definition out_of_domain_text :: string where
  "out_of_domain_text =
     ''The question is out of scope. I can help with NLP concepts (Transformer, attention, tokenization, BERT, etc.). '' @
     ''Please rephrase your question within that scope.''"

definition node_out_of_domain :: "agent_state \<Rightarrow> agent_state" where
  "node_out_of_domain state =
     state\<lparr>messages := messages state @ [SystemMessage out_of_domain_text],
           steps := steps state + 1\<rparr>"

section \<open>The compiled graph\<close>

datatype node = START | Node_llm | Node_tools | Node_out_of_domain | END

fun exec_node :: "env \<Rightarrow> node \<Rightarrow> agent_state \<Rightarrow> error + agent_state" where
  "exec_node env START state = Inr state"
| "exec_node env Node_llm state = node_llm env state"
| "exec_node env Node_tools state = node_tools env state"
| "exec_node env Node_out_of_domain state = Inr (node_out_of_domain state)"
| "exec_node env END state = Inr state"

text \<open>
  The edges of \<^verbatim>\<open>build_langgraph_agent\<close>. A conditional edge calls its routing function
  on the state the node has produced and looks the answer up in its mapping.
\<close>

definition follow :: "(string \<times> node) list \<Rightarrow> error + string \<Rightarrow> error + node" where
  "follow mapping r =
     (case r of
        Inl e \<Rightarrow> Inl e
      | Inr route \<Rightarrow> (case map_of mapping route of None \<Rightarrow> Inl KeyError | Some n \<Rightarrow> Inr n))"

fun next_node :: "int \<Rightarrow> env \<Rightarrow> node \<Rightarrow> agent_state \<Rightarrow> error + node" where
  "next_node max_steps env START state =
     follow [(''in_domain'', Node_llm), (''out_of_domain'', Node_out_of_domain)]
       (route_domain_llm env state)"
| "next_node max_steps env Node_out_of_domain state = Inr END"
| "next_node max_steps env Node_llm state =
     follow [(''continue'', Node_tools), (''end'', END)] (route_after_llm max_steps state)"
| "next_node max_steps env Node_tools state = Inr Node_llm"
| "next_node max_steps env END state = Inr END"

text \<open>
  One run of the graph from a node: the nodes entered, each with the state it was entered
  with, and the outcome (the final state, or the error that aborted the run).
\<close>

function run_graph ::
  "int \<Rightarrow> env \<Rightarrow> node \<Rightarrow> agent_state \<Rightarrow> (node \<times> agent_state) list \<times> (error + agent_state)"
where
  "run_graph max_steps env n state =
     (if n = END then ([], Inr state)
      else case exec_node env n state of
        Inl e \<Rightarrow> ([(n, state)], Inl e)
      | Inr state' \<Rightarrow>
          (case next_node max_steps env n state' of
             Inl e \<Rightarrow> ([(n, state)], Inl e)
           | Inr n' \<Rightarrow>
               (case run_graph max_steps env n' state' of
                  (trace, outcome) \<Rightarrow> ((n, state) # trace, outcome))))"
  by pat_completeness auto

text \<open>
  The run ends: a visit of the tools node is followed by the LLM node, and the LLM node
  goes on to the tools node only below the budget, so this rank decreases on every edge.
\<close>

definition node_rank :: "int \<Rightarrow> node \<Rightarrow> agent_state \<Rightarrow> nat" where
  "node_rank M n st =
     (case n of
        END \<Rightarrow> 0
      | Node_out_of_domain \<Rightarrow> 1
      | Node_llm \<Rightarrow> 2 * nat (M - steps st) + 2
      | Node_tools \<Rightarrow> 2 * nat (M - steps st) + 3
      | START \<Rightarrow> 2 * nat (M - steps st) + 4)"

termination run_graph
proof (relation "measure (\<lambda>(M, env, n, st). node_rank M n st)")
  show "wf (measure (\<lambda>(M, env, n, st). node_rank M n st))"
    by simp
next
  fix max_steps :: int and env :: env and n n' :: node and state state' :: agent_state
  assume "n \<noteq> END" and ex: "exec_node env n state = Inr state'"
    and nx: "next_node max_steps env n state' = Inr n'"
  have "node_rank max_steps n' state' < node_rank max_steps n state"
  proof (cases n)
    case START
    with ex nx show ?thesis
      by (cases n') (auto simp: node_rank_def follow_def split: sum.splits option.splits if_splits)
  next
    case Node_llm
    with ex have s: "steps state' = steps state + 1"
      by (auto simp: node_llm_def split: sum.splits)
    from Node_llm nx consider "n' = END" | "n' = Node_tools" "steps state' < max_steps"
      by (auto simp: follow_def route_after_llm_def
               split: sum.splits option.splits if_splits list.splits)
    then show ?thesis
      using Node_llm s by cases (simp_all add: node_rank_def)
  next
    case Node_tools
    with ex nx have "steps state' = steps state + 1" "n' = Node_llm"
      by (auto simp: node_tools_def split: sum.splits option.splits if_splits)
    with Node_tools show ?thesis by (simp add: node_rank_def)
  next
    case Node_out_of_domain
    with nx show ?thesis by (auto simp: node_rank_def)
  next
    case END
    with \<open>n \<noteq> END\<close> show ?thesis by simp
  qed
  then show "((max_steps, env, n', state'), (max_steps, env, n, state))
               \<in> measure (\<lambda>(M, env, n, st). node_rank M n st)"
    by simp
qed

declare run_graph.simps [simp del]

section \<open>Sample collaborators\<close>

text \<open>
  Concrete collaborators on which the results below are run: a parser that knows the two
  payloads of the router prompt, a chat model that gives one fixed reply to the router
  and one fixed reply to every decision call, and a Wikipedia runner that raises.
\<close>

definition sample_loads :: "string \<Rightarrow> error + json" where
  \<open>sample_loads s =
     (if s = ''{"route":"in_domain"}'' then Inr (JObj [(''route'', JStr ''in_domain'')])
      else if s = ''{"route":"out_of_domain"}'' then Inr (JObj [(''route'', JStr ''out_of_domain'')])
      else if s = ''[]'' then Inr (JArr [])
      else Inl JSONDecodeError)\<close>

definition scripted_env :: "string \<Rightarrow> message \<Rightarrow> env" where
  "scripted_env router_reply decision =
     \<lparr>llm_invoke = (\<lambda>msgs. Inr (AIMessage router_reply [])),
      llm_with_tools_invoke = (\<lambda>msgs. Inr decision),
      wikipedia_runner_run = (\<lambda>query. Inl ToolError),
      json_loads = sample_loads\<rparr>"

definition lookup_call :: tool_call where
  "lookup_call = \<lparr>tc_name = ''nlp_concept_kb_lookup'', tc_args = [(''term'', JStr ''x'')], tc_id = ''call_1''\<rparr>"

definition ghost_call :: tool_call where
  "ghost_call = \<lparr>tc_name = ''ghost'', tc_args = [], tc_id = ''call_2''\<rparr>"

definition wiki_call :: tool_call where
  "wiki_call = \<lparr>tc_name = ''wikipedia_search'', tc_args = [(''query'', JStr ''BERT'')], tc_id = ''call_3''\<rparr>"

text \<open>The oracle that never stops asking for an action.\<close>

definition greedy_env :: env where
  \<open>greedy_env = scripted_env ''{"route":"in_domain"}'' (AIMessage [] [ghost_call])\<close>

text \<open>The state the program's main block starts every run with.\<close>

definition initial_state :: "string \<Rightarrow> agent_state" where
  "initial_state user_query = \<lparr>messages = [HumanMessage user_query], steps = 0\<rparr>"

text \<open>
  The state of Scenario C after the decision step: one request for the registered lookup
  tool and one for a tool that is not registered.
\<close>

definition asked_state :: agent_state where
  "asked_state =
     \<lparr>messages = [HumanMessage ''q'', AIMessage [] [lookup_call, ghost_call]], steps = 1\<rparr>"

definition wiki_state :: agent_state where
  "wiki_state =
     \<lparr>messages = [HumanMessage ''q'', AIMessage [] [ghost_call, wiki_call, lookup_call]], steps = 1\<rparr>"

text \<open>The largest step count a run entered at a node with step count \<open>s\<close> can end with.\<close>

definition steps_bound :: "int \<Rightarrow> node \<Rightarrow> int \<Rightarrow> int" where
  "steps_bound M n s =
     (case n of
        END \<Rightarrow> s
      | Node_out_of_domain \<Rightarrow> s + 1
      | Node_llm \<Rightarrow> max (s + 1) (M + 1)
      | Node_tools \<Rightarrow> max (s + 2) (M + 1)
      | START \<Rightarrow> max (s + 1) (M + 1))"

section \<open>The tools node\<close>

lemma TOOLS_BY_NAME_None_iff:
  "(TOOLS_BY_NAME nm = None) = (nm \<noteq> ''wikipedia_search'' \<and> nm \<noteq> ''nlp_concept_kb_lookup'')"
  by (auto simp: TOOLS_BY_NAME_def TOOLS_def)

lemma run_tool_call_unknown:
  "TOOLS_BY_NAME (tc_name tc) = None \<Longrightarrow>
     run_tool_call env tc = Inr (ToolMessage (''Unknown tool: '' @ tc_name tc) (tc_name tc) (tc_id tc))"
  by (simp add: run_tool_call_def)

lemma run_tool_call_fails:
  "TOOLS_BY_NAME (tc_name tc) = Some t \<Longrightarrow> tool_invoke env t (tc_args tc) = Inl e \<Longrightarrow>
     run_tool_call env tc = Inl e"
  by (simp add: run_tool_call_def)

lemma run_tool_call_id:
  "run_tool_call env tc = Inr m \<Longrightarrow> tool_call_id m = Some (tc_id tc)"
  by (auto simp: run_tool_call_def split: option.splits sum.splits)

lemma run_tool_calls_Inr:
  "(run_tool_calls env tcs acc = Inr out) =
     (\<exists>obs. out = acc @ obs \<and> list_all2 (\<lambda>tc m. run_tool_call env tc = Inr m) tcs obs)"
proof (induction tcs arbitrary: acc)
  case Nil
  show ?case by auto
next
  case (Cons tc rest)
  show ?case
  proof (cases "run_tool_call env tc")
    case (Inl e)
    then show ?thesis by (auto simp: list_all2_Cons1)
  next
    case (Inr m)
    then show ?thesis by (auto simp: Cons.IH list_all2_Cons1)
  qed
qed

lemma run_tool_calls_Inl:
  "list_all2 (\<lambda>tc m. run_tool_call env tc = Inr m) pre obs \<Longrightarrow> run_tool_call env tc = Inl e
     \<Longrightarrow> run_tool_calls env (pre @ tc # post) acc = Inl e"
  by (induction pre obs arbitrary: acc rule: list_all2_induct) auto

lemma all_succeed_obs:
  "\<forall>tc \<in> set tcs. \<not> isl (run_tool_call env tc) \<Longrightarrow>
     \<exists>obs. list_all2 (\<lambda>tc m. run_tool_call env tc = Inr m) tcs obs"
proof (induction tcs)
  case Nil
  show ?case by simp
next
  case (Cons tc rest)
  then obtain obs where "list_all2 (\<lambda>tc m. run_tool_call env tc = Inr m) rest obs"
    by auto
  moreover from Cons.prems obtain m where "run_tool_call env tc = Inr m"
    by (cases "run_tool_call env tc") auto
  ultimately have "list_all2 (\<lambda>tc m. run_tool_call env tc = Inr m) (tc # rest) (m # obs)"
    by simp
  then show ?case ..
qed

lemma obs_ids:
  "list_all2 (\<lambda>tc m. run_tool_call env tc = Inr m) tcs obs \<Longrightarrow>
     map tool_call_id obs = map (\<lambda>tc. Some (tc_id tc)) tcs"
  by (induction tcs obs rule: list_all2_induct) (auto simp: run_tool_call_id)

lemma run_tool_calls_nil:
  "(run_tool_calls env tcs [] = Inr out) =
     list_all2 (\<lambda>tc m. run_tool_call env tc = Inr m) tcs out"
  by (simp add: run_tool_calls_Inr)

lemma node_tools_Inr:
  assumes "messages st \<noteq> []" "last (messages st) = AIMessage c tcs"
  shows "(node_tools env st = Inr st') =
     (\<exists>obs. st' = st\<lparr>messages := messages st @ obs, steps := steps st + 1\<rparr> \<and>
            list_all2 (\<lambda>tc m. run_tool_call env tc = Inr m) tcs obs)"
  unfolding node_tools_def using assms
  by (auto simp: run_tool_calls_nil [symmetric] split: sum.splits)

lemma node_tools_Inl:
  assumes "messages st \<noteq> []" "last (messages st) = AIMessage c (pre @ tc # post)"
    and "list_all2 (\<lambda>tc m. run_tool_call env tc = Inr m) pre obs" "run_tool_call env tc = Inl e"
  shows "node_tools env st = Inl e"
  using assms by (simp add: node_tools_def run_tool_calls_Inl)

section \<open>Runs of the graph\<close>

lemma run_graph_END: "run_graph M env END st = ([], Inr st)"
  by (simp add: run_graph.simps)

lemma run_graph_fail:
  "n \<noteq> END \<Longrightarrow> exec_node env n st = Inl e \<Longrightarrow> run_graph M env n st = ([(n, st)], Inl e)"
  by (simp add: run_graph.simps)

lemma run_graph_route_fail:
  "n \<noteq> END \<Longrightarrow> exec_node env n st = Inr st' \<Longrightarrow> next_node M env n st' = Inl e
     \<Longrightarrow> run_graph M env n st = ([(n, st)], Inl e)"
  by (simp add: run_graph.simps)

lemma run_graph_edge:
  "n \<noteq> END \<Longrightarrow> exec_node env n st = Inr st' \<Longrightarrow> next_node M env n st' = Inr n'
     \<Longrightarrow> run_graph M env n st =
           ((n, st) # fst (run_graph M env n' st'), snd (run_graph M env n' st'))"
  by (simp add: run_graph.simps [of M env n st] split: prod.splits)

lemma run_graph_head:
  "n \<noteq> END \<Longrightarrow> \<exists>tr. fst (run_graph M env n st) = (n, st) # tr"
  by (cases "exec_node env n st"; cases "next_node M env n (projr (exec_node env n st))")
     (auto simp: run_graph_fail run_graph_route_fail run_graph_edge)

lemma run_graph_tools:
  "node_tools env st = Inr st' \<Longrightarrow>
     \<exists>tr out. run_graph M env Node_tools st = ((Node_tools, st) # (Node_llm, st') # tr, out)"
proof -
  assume a: "node_tools env st = Inr st'"
  obtain tr where "fst (run_graph M env Node_llm st') = (Node_llm, st') # tr"
    using run_graph_head [of Node_llm M env st'] by auto
  with a show ?thesis
    by (simp add: run_graph_edge [of Node_tools env st st' M Node_llm])
qed

section \<open>The step count along a run\<close>

lemma node_llm_steps: "node_llm env st = Inr st' \<Longrightarrow> steps st' = steps st + 1"
  by (auto simp: node_llm_def split: sum.splits)

lemma node_tools_steps: "node_tools env st = Inr st' \<Longrightarrow> steps st' = steps st + 1"
  by (auto simp: node_tools_def split: sum.splits option.splits if_splits)

lemma exec_node_steps: "exec_node env n st = Inr st' \<Longrightarrow> steps st \<le> steps st'"
  by (cases n) (auto simp: node_out_of_domain_def dest: node_llm_steps node_tools_steps)

lemma run_graph_steps:
  "run_graph M env n st = (tr, out) \<Longrightarrow>
     sorted (map (\<lambda>e. steps (snd e)) tr) \<and>
     (\<forall>e \<in> set tr. steps st \<le> steps (snd e)) \<and>
     (\<forall>st'. out = Inr st' \<longrightarrow> steps st \<le> steps st' \<and> (\<forall>e \<in> set tr. steps (snd e) \<le> steps st'))"
proof (induction M env n st arbitrary: tr out rule: run_graph.induct)
  case (1 M env n st)
  show ?case
  proof (cases "n = END")
    case True
    with "1.prems" show ?thesis by (auto simp: run_graph_END)
  next
    case nonend: False
    show ?thesis
    proof (cases "exec_node env n st")
      case (Inl e)
      with nonend "1.prems" show ?thesis by (auto simp: run_graph_fail)
    next
      case (Inr st1)
      note ex = this
      then have le: "steps st \<le> steps st1" by (rule exec_node_steps)
      show ?thesis
      proof (cases "next_node M env n st1")
        case (Inl e)
        with nonend ex "1.prems" show ?thesis by (auto simp: run_graph_route_fail)
      next
        case (Inr n1)
        obtain tr1 out1 where r1: "run_graph M env n1 st1 = (tr1, out1)"
          by (cases "run_graph M env n1 st1")
        from "1.IH" [OF nonend ex Inr r1]
        have ih: "sorted (map (\<lambda>e. steps (snd e)) tr1)"
          "\<forall>e \<in> set tr1. steps st1 \<le> steps (snd e)"
          "\<forall>st'. out1 = Inr st' \<longrightarrow> steps st1 \<le> steps st' \<and> (\<forall>e \<in> set tr1. steps (snd e) \<le> steps st')"
          by blast+
        from nonend ex Inr r1 "1.prems" have eq: "tr = (n, st) # tr1" "out = out1"
          by (simp_all add: run_graph_edge)
        from ih le eq show ?thesis
          by (auto simp: order_trans [OF le])
      qed
    qed
  qed
qed

lemma edge_bound:
  assumes "n \<noteq> END" "exec_node env n st = Inr st1" "next_node M env n st1 = Inr n1"
  shows "steps_bound M n1 (steps st1) \<le> steps_bound M n (steps st)"
proof (cases n)
  case START
  with assms show ?thesis
    by (cases n1) (auto simp: steps_bound_def follow_def split: sum.splits option.splits if_splits)
next
  case Node_llm
  with assms have s: "steps st1 = steps st + 1" by (simp add: node_llm_steps)
  from Node_llm assms consider "n1 = END" | "n1 = Node_tools" "steps st1 < M"
    by (auto simp: follow_def route_after_llm_def
             split: sum.splits option.splits if_splits list.splits)
  then show ?thesis
    using Node_llm s by cases (simp_all add: steps_bound_def)
next
  case Node_tools
  with assms have "steps st1 = steps st + 1" "n1 = Node_llm" by (auto simp: node_tools_steps)
  with Node_tools show ?thesis by (simp add: steps_bound_def)
next
  case Node_out_of_domain
  with assms show ?thesis by (auto simp: steps_bound_def node_out_of_domain_def)
next
  case END
  with assms show ?thesis by simp
qed

lemma run_graph_bound:
  "run_graph M env n st = (tr, Inr st') \<Longrightarrow> steps st' \<le> steps_bound M n (steps st)"
proof (induction M env n st arbitrary: tr rule: run_graph.induct)
  case (1 M env n st)
  show ?case
  proof (cases "n = END")
    case True
    with "1.prems" show ?thesis by (auto simp: run_graph_END steps_bound_def)
  next
    case nonend: False
    show ?thesis
    proof (cases "exec_node env n st")
      case (Inl e)
      with nonend "1.prems" show ?thesis by (auto simp: run_graph_fail)
    next
      case (Inr st1)
      note ex = this
      show ?thesis
      proof (cases "next_node M env n st1")
        case (Inl e)
        with nonend ex "1.prems" show ?thesis by (auto simp: run_graph_route_fail)
      next
        case (Inr n1)
        from nonend ex Inr "1.prems"
        have r1: "run_graph M env n1 st1 = (fst (run_graph M env n1 st1), Inr st')"
          by (simp add: run_graph_edge prod_eq_iff)
        from "1.IH" [OF nonend ex Inr r1] have "steps st' \<le> steps_bound M n1 (steps st1)" .
        also have "\<dots> \<le> steps_bound M n (steps st)"
          using nonend ex Inr by (rule edge_bound)
        finally show ?thesis .
      qed
    qed
  qed
qed

lemma Inr_projr: "\<not> isl x \<Longrightarrow> x = Inr (projr x)"
  by (cases x) auto

section \<open>The router and the refusal path\<close>

lemma run_graph_refusal:
  "run_graph M env Node_out_of_domain st = ([(Node_out_of_domain, st)], Inr (node_out_of_domain st))"
  by (simp add: run_graph_edge [of Node_out_of_domain env st "node_out_of_domain st" M END]
                run_graph_END)

lemma run_graph_START_out:
  "route_domain_llm env st = Inr ''out_of_domain'' \<Longrightarrow>
     run_graph M env START st
       = ([(START, st), (Node_out_of_domain, st)], Inr (node_out_of_domain st))"
  by (simp add: run_graph_edge [of START env st st M Node_out_of_domain] follow_def
                run_graph_refusal)

lemma run_graph_START_in:
  "route_domain_llm env st = Inr ''in_domain'' \<Longrightarrow>
     run_graph M env START st
       = ((START, st) # fst (run_graph M env Node_llm st), snd (run_graph M env Node_llm st))"
  by (simp add: run_graph_edge [of START env st st M Node_llm] follow_def)

lemma route_domain_llm_fails_open:
  assumes "llm_invoke env [ROUTER_SYSTEM_MESSAGE, HumanMessage (last_user_text (messages st))]
             = Inr response"
    and "\<not> (\<exists>payload. json_loads env (py_strip (content response)) = Inr (JObj payload) \<and>
               map_of payload ''route'' = Some (JStr ''out_of_domain''))"
  shows "route_domain_llm env st = Inr ''in_domain''"
  using assms by (auto simp: route_domain_llm_def split: sum.splits json.splits)

lemma route_domain_llm_update:
  "route_domain_llm (env\<lparr>llm_with_tools_invoke := f\<rparr>) st = route_domain_llm env st"
  by (simp add: route_domain_llm_def cong: sum.case_cong)

lemma loop_stays_in_loop:
  "run_graph M env n st = (tr, out) \<Longrightarrow> n = Node_llm \<or> n = Node_tools \<or> n = END \<Longrightarrow>
     Node_out_of_domain \<notin> fst ` set tr"
proof (induction M env n st arbitrary: tr out rule: run_graph.induct)
  case (1 M env n st)
  show ?case
  proof (cases "n = END")
    case True
    with "1.prems" show ?thesis by (auto simp: run_graph_END)
  next
    case nonend: False
    show ?thesis
    proof (cases "exec_node env n st")
      case (Inl e)
      with nonend "1.prems" show ?thesis by (auto simp: run_graph_fail)
    next
      case (Inr st1)
      note ex = this
      show ?thesis
      proof (cases "next_node M env n st1")
        case (Inl e)
        with nonend ex "1.prems" show ?thesis by (auto simp: run_graph_route_fail)
      next
        case (Inr n1)
        from Inr "1.prems"(2) nonend have n1: "n1 = Node_llm \<or> n1 = Node_tools \<or> n1 = END"
          by (auto simp: follow_def split: sum.splits option.splits if_splits)
        have r1: "run_graph M env n1 st1
            = (fst (run_graph M env n1 st1), snd (run_graph M env n1 st1))"
          by simp
        from "1.IH" [OF nonend ex Inr r1 n1]
        have "Node_out_of_domain \<notin> fst ` set (fst (run_graph M env n1 st1))" .
        moreover from nonend ex Inr "1.prems"(1)
        have "tr = (n, st) # fst (run_graph M env n1 st1)"
          by (simp add: run_graph_edge)
        ultimately show ?thesis
          using "1.prems"(2) by auto
      qed
    qed
  qed
qed

section \<open>Normalisation of the lookup key\<close>

lemma py_isspace_lower: "py_isspace (py_lower_char c) = py_isspace c"
  unfolding py_isspace_def py_lower_char_def Let_def
  by auto

lemma py_lower_char_idem: "py_lower_char (py_lower_char c) = py_lower_char c"
  unfolding py_lower_char_def Let_def
  by auto

lemma py_lower_idem: "py_lower (py_lower s) = py_lower s"
  by (simp add: py_lower_def py_lower_char_idem)

lemma py_lower_strip: "py_lower (py_strip s) = py_strip (py_lower s)"
  by (simp add: py_lower_def py_strip_def rev_map dropWhile_map comp_def py_isspace_lower)

lemma dropWhile_rev_head:
  assumes "xs = [] \<or> \<not> P (hd xs)"
  shows "dropWhile P (rev (dropWhile P (rev xs))) = rev (dropWhile P (rev xs))"
  using assms by (cases xs) (auto simp: dropWhile_append)

lemma dropWhile_head: "dropWhile P s = [] \<or> \<not> P (hd (dropWhile P s))"
  by (metis hd_dropWhile)

lemma py_strip_idem: "py_strip (py_strip s) = py_strip s"
  unfolding py_strip_def
  by (simp add: dropWhile_rev_head [OF dropWhile_head])

lemma normalise_idem:
  "py_strip (py_lower (py_strip (py_lower s))) = py_strip (py_lower s)"
  by (simp add: py_lower_strip py_lower_idem py_strip_idem)

lemma dumps_not_found:
  \<open>json_dumps (JObj [(''error'', JStr ''concept not found.'')]) = ''{"error": "concept not found."}''\<close>
  by (simp add: json_quote_def json_escape_char_def)

section \<open>Results\<close>

text \<open>
  C10. The lookup gives the same answer for a term and for its lower-cased, stripped
  form, and for a term whose normalised form is no key of the knowledge base it returns
  the JSON text of the not-found object; it is a total function, so it never fails.
\<close>

theorem kb_lookup_normalised:
  \<open>nlp_concept_kb_lookup term = nlp_concept_kb_lookup (py_strip (py_lower term)) \<and>
   (py_strip (py_lower term) \<notin> fst ` set NLP_REFERENCE_KB \<longrightarrow>
      nlp_concept_kb_lookup term = ''{"error": "concept not found."}'')\<close>
proof
  show "nlp_concept_kb_lookup term = nlp_concept_kb_lookup (py_strip (py_lower term))"
    by (simp add: nlp_concept_kb_lookup_def normalise_idem)
next
  show \<open>py_strip (py_lower term) \<notin> fst ` set NLP_REFERENCE_KB \<longrightarrow>
      nlp_concept_kb_lookup term = ''{"error": "concept not found."}''\<close>
  proof
    assume "py_strip (py_lower term) \<notin> fst ` set NLP_REFERENCE_KB"
    then have "map_of NLP_REFERENCE_KB (py_strip (py_lower term)) = None"
      by (simp add: map_of_eq_None_iff)
    then show \<open>nlp_concept_kb_lookup term = ''{"error": "concept not found."}''\<close>
      unfolding nlp_concept_kb_lookup_def Let_def
      by (simp only: option.case dumps_not_found)
  qed
qed

theorem kb_lookup_normalised_witness:
  \<open>py_strip (py_lower ''  Ghost '') = ''ghost'' \<and>
   ''ghost'' \<notin> fst ` set NLP_REFERENCE_KB \<and>
   nlp_concept_kb_lookup ''  Ghost '' = nlp_concept_kb_lookup ''ghost'' \<and>
   nlp_concept_kb_lookup ''  Ghost '' = ''{"error": "concept not found."}''\<close>
proof -
  have key: "py_strip (py_lower ''  Ghost '') = ''ghost''"
    by code_simp
  have absent: "''ghost'' \<notin> fst ` set NLP_REFERENCE_KB"
    by (simp add: NLP_REFERENCE_KB_def)
  note inst = kb_lookup_normalised [of "''  Ghost ''", unfolded key]
  from inst have same: "nlp_concept_kb_lookup ''  Ghost '' = nlp_concept_kb_lookup ''ghost''"
    by (rule conjunct1)
  from inst [THEN conjunct2, THEN mp, OF absent] key absent same show ?thesis
    by (intro conjI)
qed

text \<open>
  C3. One execution of the LLM node adds exactly 1 to the step count, and so does one
  execution of the tools node, whatever the number of tool calls it serves (it appends
  one message per call and still counts one step); along every run the step counts of
  the states the nodes are entered with never decrease, and the final state has the
  largest.
\<close>

theorem step_count_increments:
  assumes "node_llm env s1 = Inr s1'"
    and "messages s2 \<noteq> []" and "last (messages s2) = AIMessage c tcs"
    and "node_tools env s2 = Inr s2'"
    and "run_graph M env n s3 = (tr, out)"
  shows "steps s1' = steps s1 + 1 \<and>
         steps s2' = steps s2 + 1 \<and>
         length (messages s2') = length (messages s2) + length tcs \<and>
         sorted (map (\<lambda>e. steps (snd e)) tr) \<and>
         (\<forall>e \<in> set tr. steps s3 \<le> steps (snd e)) \<and>
         (\<forall>st'. out = Inr st' \<longrightarrow> (\<forall>e \<in> set tr. steps (snd e) \<le> steps st'))"
proof -
  from assms(2,3,4) obtain obs
    where "s2' = s2\<lparr>messages := messages s2 @ obs, steps := steps s2 + 1\<rparr>"
      and "list_all2 (\<lambda>tc m. run_tool_call env tc = Inr m) tcs obs"
    by (auto simp: node_tools_Inr)
  then have "length (messages s2') = length (messages s2) + length tcs"
    by (simp add: list_all2_lengthD)
  with node_llm_steps [OF assms(1)] node_tools_steps [OF assms(4)] run_graph_steps [OF assms(5)]
  show ?thesis by blast
qed

theorem step_count_increments_witness:
  "steps (projr (node_llm greedy_env (initial_state ''q''))) = steps (initial_state ''q'') + 1 \<and>
   steps (projr (node_tools greedy_env asked_state)) = steps asked_state + 1 \<and>
   length (messages (projr (node_tools greedy_env asked_state))) = length (messages asked_state) + 2 \<and>
   sorted (map (\<lambda>e. steps (snd e)) (fst (run_graph MAX_STEPS greedy_env START (initial_state ''q''))))"
proof -
  have "\<not> isl (node_llm greedy_env (initial_state ''q''))"
    by code_simp
  then have h1: "node_llm greedy_env (initial_state ''q'')
      = Inr (projr (node_llm greedy_env (initial_state ''q'')))"
    by (rule Inr_projr)
  have h2: "messages asked_state \<noteq> []"
    by (simp add: asked_state_def)
  have h3: "last (messages asked_state) = AIMessage [] [lookup_call, ghost_call]"
    by (simp add: asked_state_def)
  have "\<not> isl (node_tools greedy_env asked_state)"
    by code_simp
  then have h4: "node_tools greedy_env asked_state = Inr (projr (node_tools greedy_env asked_state))"
    by (rule Inr_projr)
  have h5: "run_graph MAX_STEPS greedy_env START (initial_state ''q'')
      = (fst (run_graph MAX_STEPS greedy_env START (initial_state ''q'')),
         snd (run_graph MAX_STEPS greedy_env START (initial_state ''q'')))"
    by simp
  from step_count_increments [OF h1 h2 h3 h4 h5] show ?thesis
    by simp
qed

text \<open>
  C1, as amended. A run that starts with step count 0 and reaches a terminal state ends
  with a step count of at most \<open>max_steps + 1\<close>: the budget is tested only after the LLM
  node has counted its own step.
\<close>

theorem terminal_steps_bound:
  assumes "0 \<le> max_steps" and "steps state = 0"
    and "run_graph max_steps env START state = (trace, Inr state')"
  shows "steps state' \<le> max_steps + 1"
  using run_graph_bound [OF assms(3)] assms(1,2) by (simp add: steps_bound_def)

theorem terminal_steps_bound_witness:
  "0 \<le> MAX_STEPS \<and> steps (initial_state ''q'') = 0 \<and>
   \<not> isl (snd (run_graph MAX_STEPS greedy_env START (initial_state ''q''))) \<and>
   steps (projr (snd (run_graph MAX_STEPS greedy_env START (initial_state ''q'')))) \<le> MAX_STEPS + 1"
proof -
  have a: "0 \<le> MAX_STEPS"
    by (simp add: MAX_STEPS_def)
  have b: "steps (initial_state ''q'') = 0"
    by (simp add: initial_state_def)
  have c: "\<not> isl (snd (run_graph MAX_STEPS greedy_env START (initial_state ''q'')))"
    by code_simp
  have d: "run_graph MAX_STEPS greedy_env START (initial_state ''q'')
      = (fst (run_graph MAX_STEPS greedy_env START (initial_state ''q'')),
         Inr (projr (snd (run_graph MAX_STEPS greedy_env START (initial_state ''q'')))))"
    using Inr_projr [OF c] by (simp add: prod_eq_iff)
  from terminal_steps_bound [OF a b d] a b c show ?thesis
    by (intro conjI)
qed

text \<open>
  C1, as stated, fails: with the budget of the program, 6, and an oracle that asks for a
  tool in every answer, the run from step count 0 ends with step count 7.
\<close>

theorem terminal_steps_counterexample:
  "map_sum id steps (snd (run_graph MAX_STEPS greedy_env START (initial_state ''q''))) = Inr 7
   \<and> \<not> 7 \<le> MAX_STEPS"
  by code_simp

text \<open>
  C4. When the last message is an assistant message with N tool calls and the tools node
  returns, it has appended exactly N tool messages, in the order of the calls, the
  \<open>tool_call_id\<close> of each equal to the id of its call (so no id is missing or repeated
  beyond the requests themselves), and the LLM node is entered next with a state whose
  log already holds all of them.
\<close>

theorem tools_node_observations:
  assumes "messages st \<noteq> []" and "last (messages st) = AIMessage c tcs"
    and "node_tools env st = Inr st'"
  shows "\<exists>obs. messages st' = messages st @ obs \<and>
           length obs = length tcs \<and>
           map tool_call_id obs = map (\<lambda>tc. Some (tc_id tc)) tcs \<and>
           (\<exists>tr out. run_graph M env Node_tools st = ((Node_tools, st) # (Node_llm, st') # tr, out))"
proof -
  from assms obtain obs
    where st': "st' = st\<lparr>messages := messages st @ obs, steps := steps st + 1\<rparr>"
      and obs: "list_all2 (\<lambda>tc m. run_tool_call env tc = Inr m) tcs obs"
    by (auto simp: node_tools_Inr)
  from st' have "messages st' = messages st @ obs" by simp
  moreover from obs have "length obs = length tcs" by (simp add: list_all2_lengthD)
  moreover from obs have "map tool_call_id obs = map (\<lambda>tc. Some (tc_id tc)) tcs"
    by (rule obs_ids)
  moreover note run_graph_tools [OF assms(3), of M]
  ultimately show ?thesis by blast
qed

theorem tools_node_observations_witness:
  "\<exists>obs. messages (projr (node_tools greedy_env asked_state)) = messages asked_state @ obs \<and>
     length obs = 2 \<and>
     map tool_call_id obs = [Some ''call_1'', Some ''call_2'']"
proof -
  have h1: "messages asked_state \<noteq> []"
    by (simp add: asked_state_def)
  have h2: "last (messages asked_state) = AIMessage [] [lookup_call, ghost_call]"
    by (simp add: asked_state_def)
  have "\<not> isl (node_tools greedy_env asked_state)"
    by code_simp
  then have h3: "node_tools greedy_env asked_state = Inr (projr (node_tools greedy_env asked_state))"
    by (rule Inr_projr)
  from tools_node_observations [OF h1 h2 h3, of MAX_STEPS] show ?thesis
    by (auto simp: lookup_call_def ghost_call_def)
qed

text \<open>
  C5, as amended. For a tool call whose name is no key of the registry (the registry
  holds exactly the two tool names, compared as whole strings), the loop body builds the
  tool message with content \<open>Unknown tool: \<close> followed by the name, the name echoed and the
  \<open>tool_call_id\<close> of the call, and it does so under every environment, so no executable
  is consulted; when every call of the message that does resolve succeeds, the tools node
  returns, with that message at the position of the call, and the LLM node comes next.
\<close>

theorem unknown_tool_observation:
  assumes "messages st \<noteq> []" and "last (messages st) = AIMessage c tcs"
    and "i < length tcs" and "TOOLS_BY_NAME (tc_name (tcs ! i)) = None"
    and "\<forall>tc \<in> set tcs. \<not> isl (run_tool_call env tc)"
  shows "(TOOLS_BY_NAME nm = None) = (nm \<noteq> ''wikipedia_search'' \<and> nm \<noteq> ''nlp_concept_kb_lookup'') \<and>
         (\<forall>env'. run_tool_call env' (tcs ! i) =
            Inr (ToolMessage (''Unknown tool: '' @ tc_name (tcs ! i)) (tc_name (tcs ! i)) (tc_id (tcs ! i)))) \<and>
         (\<exists>obs. node_tools env st = Inr (st\<lparr>messages := messages st @ obs, steps := steps st + 1\<rparr>) \<and>
            length obs = length tcs \<and>
            obs ! i = ToolMessage (''Unknown tool: '' @ tc_name (tcs ! i)) (tc_name (tcs ! i)) (tc_id (tcs ! i)) \<and>
            (\<exists>tr out. run_graph M env Node_tools st =
               ((Node_tools, st) # (Node_llm, st\<lparr>messages := messages st @ obs, steps := steps st + 1\<rparr>) # tr, out)))"
proof -
  have unknown: "run_tool_call env' (tcs ! i) =
      Inr (ToolMessage (''Unknown tool: '' @ tc_name (tcs ! i)) (tc_name (tcs ! i)) (tc_id (tcs ! i)))"
    for env'
    using assms(4) by (rule run_tool_call_unknown)
  from assms(5) obtain obs
    where obs: "list_all2 (\<lambda>tc m. run_tool_call env tc = Inr m) tcs obs"
    using all_succeed_obs by blast
  then have len: "length obs = length tcs" by (simp add: list_all2_lengthD)
  have "run_tool_call env (tcs ! i) = Inr (obs ! i)"
    using list_all2_nthD [OF obs assms(3)] by simp
  with unknown [of env]
  have at_i: "obs ! i = ToolMessage (''Unknown tool: '' @ tc_name (tcs ! i)) (tc_name (tcs ! i)) (tc_id (tcs ! i))"
    by simp
  from obs assms(1,2)
  have ok: "node_tools env st = Inr (st\<lparr>messages := messages st @ obs, steps := steps st + 1\<rparr>)"
    by (auto simp: node_tools_Inr)
  from run_graph_tools [OF ok, of M] ok len at_i unknown TOOLS_BY_NAME_None_iff [of nm]
  show ?thesis by blast
qed

theorem unknown_tool_observation_witness:
  "TOOLS_BY_NAME ''Wikipedia_Search'' = None \<and>
   run_tool_call greedy_env ghost_call = Inr (ToolMessage ''Unknown tool: ghost'' ''ghost'' ''call_2'') \<and>
   (\<exists>obs. node_tools greedy_env asked_state
       = Inr (asked_state\<lparr>messages := messages asked_state @ obs, steps := steps asked_state + 1\<rparr>) \<and>
      length obs = 2 \<and>
      obs ! 1 = ToolMessage ''Unknown tool: ghost'' ''ghost'' ''call_2'')"
proof -
  have h1: "messages asked_state \<noteq> []"
    by (simp add: asked_state_def)
  have h2: "last (messages asked_state) = AIMessage [] [lookup_call, ghost_call]"
    by (simp add: asked_state_def)
  have h3: "1 < length [lookup_call, ghost_call]"
    by simp
  have h4: "TOOLS_BY_NAME (tc_name ([lookup_call, ghost_call] ! 1)) = None"
    by (simp add: ghost_call_def TOOLS_BY_NAME_def TOOLS_def)
  have h5: "\<forall>tc \<in> set [lookup_call, ghost_call]. \<not> isl (run_tool_call greedy_env tc)"
    by (simp add: run_tool_call_def lookup_call_def ghost_call_def TOOLS_BY_NAME_def TOOLS_def)
  from unknown_tool_observation [OF h1 h2 h3 h4 h5, of "''Wikipedia_Search''" MAX_STEPS]
  show ?thesis
    by (auto simp: ghost_call_def)
qed

text \<open>
  C5, as stated, fails on the text of the observation: for the unregistered name
  \<open>ghost\<close> the tools node appends a tool message whose content is
  \<open>Unknown tool: ghost\<close>, not \<open>unknown action: ghost\<close>.
\<close>

theorem unknown_tool_counterexample:
  "\<not> isl (node_tools greedy_env asked_state) \<and>
   last (messages (projr (node_tools greedy_env asked_state)))
     = ToolMessage ''Unknown tool: ghost'' ''ghost'' ''call_2'' \<and>
   content (last (messages (projr (node_tools greedy_env asked_state)))) \<noteq> ''unknown action: ghost''"
  by code_simp

text \<open>
  C8. When a tool call of the last message resolves, the calls before it have completed
  and its executable raises, the tools node raises that same error: it returns no state,
  so nothing is appended to the log, and the run from the tools node ends there with
  the error as its outcome.
\<close>

theorem tool_failure_is_fatal:
  assumes "messages st \<noteq> []" and "last (messages st) = AIMessage c (pre @ tc # post)"
    and "\<forall>p \<in> set pre. \<not> isl (run_tool_call env p)"
    and "TOOLS_BY_NAME (tc_name tc) = Some t" and "tool_invoke env t (tc_args tc) = Inl e"
  shows "run_tool_call env tc = Inl e \<and>
         node_tools env st = Inl e \<and>
         run_graph M env Node_tools st = ([(Node_tools, st)], Inl e)"
proof -
  from assms(4,5) have fail: "run_tool_call env tc = Inl e"
    by (rule run_tool_call_fails)
  from assms(3) obtain obs
    where obs: "list_all2 (\<lambda>tc m. run_tool_call env tc = Inr m) pre obs"
    using all_succeed_obs by blast
  from assms(1,2) obs fail have node: "node_tools env st = Inl e"
    by (rule node_tools_Inl)
  then have "run_graph M env Node_tools st = ([(Node_tools, st)], Inl e)"
    by (simp add: run_graph_fail)
  with fail node show ?thesis by simp
qed

theorem tool_failure_is_fatal_witness:
  "run_tool_call greedy_env wiki_call = Inl ToolError \<and>
   node_tools greedy_env wiki_state = Inl ToolError \<and>
   run_graph MAX_STEPS greedy_env Node_tools wiki_state = ([(Node_tools, wiki_state)], Inl ToolError)"
proof -
  have h1: "messages wiki_state \<noteq> []"
    by (simp add: wiki_state_def)
  have h2: "last (messages wiki_state) = AIMessage [] ([ghost_call] @ wiki_call # [lookup_call])"
    by (simp add: wiki_state_def)
  have h3: "\<forall>p \<in> set [ghost_call]. \<not> isl (run_tool_call greedy_env p)"
    by (simp add: run_tool_call_def ghost_call_def TOOLS_BY_NAME_def TOOLS_def)
  have h4: "TOOLS_BY_NAME (tc_name wiki_call) = Some wikipedia_search"
    by (simp add: wiki_call_def TOOLS_BY_NAME_def TOOLS_def)
  have h5: "tool_invoke greedy_env wikipedia_search (tc_args wiki_call) = Inl ToolError"
    by (simp add: wiki_call_def greedy_env_def scripted_env_def)
  from tool_failure_is_fatal [OF h1 h2 h3 h4 h5] show ?thesis .
qed

text \<open>
  C6. When the chat model answers the router's call and the answer, stripped, does not
  parse to an object whose \<open>route\<close> is \<open>out_of_domain\<close> (the parser raises, or the
  payload is another value), the router returns \<open>in_domain\<close>; the run enters the LLM
  node next and never the refusal node.
\<close>

theorem router_fails_open:
  assumes "llm_invoke env [ROUTER_SYSTEM_MESSAGE, HumanMessage (last_user_text (messages st))]
             = Inr response"
    and "\<not> (\<exists>payload. json_loads env (py_strip (content response)) = Inr (JObj payload) \<and>
               map_of payload ''route'' = Some (JStr ''out_of_domain''))"
  shows "route_domain_llm env st = Inr ''in_domain'' \<and>
         (\<exists>tr out. run_graph M env START st = ((START, st) # (Node_llm, st) # tr, out) \<and>
            Node_out_of_domain \<notin> fst ` set tr)"
proof -
  from assms have r: "route_domain_llm env st = Inr ''in_domain''"
    by (rule route_domain_llm_fails_open)
  obtain tr where tr: "fst (run_graph M env Node_llm st) = (Node_llm, st) # tr"
    using run_graph_head [of Node_llm M env st] by auto
  have "Node_out_of_domain \<notin> fst ` set (fst (run_graph M env Node_llm st))"
    by (rule loop_stays_in_loop [of M env Node_llm st _ "snd (run_graph M env Node_llm st)"]) simp_all
  with tr have "Node_out_of_domain \<notin> fst ` set tr" by auto
  with r tr show ?thesis
    by (simp add: run_graph_START_in)
qed

theorem router_fails_open_witness:
  "route_domain_llm (scripted_env ''Sure, this is about NLP.'' (AIMessage ''answer'' []))
     (initial_state ''q'') = Inr ''in_domain'' \<and>
   map fst (fst (run_graph MAX_STEPS (scripted_env ''Sure, this is about NLP.'' (AIMessage ''answer'' []))
     START (initial_state ''q''))) = [START, Node_llm]"
proof -
  have h1: "llm_invoke (scripted_env ''Sure, this is about NLP.'' (AIMessage ''answer'' []))
      [ROUTER_SYSTEM_MESSAGE, HumanMessage (last_user_text (messages (initial_state ''q'')))]
      = Inr (AIMessage ''Sure, this is about NLP.'' [])"
    by (simp add: scripted_env_def)
  have "json_loads (scripted_env ''Sure, this is about NLP.'' (AIMessage ''answer'' []))
      (py_strip (content (AIMessage ''Sure, this is about NLP.'' []))) = Inl JSONDecodeError"
    by code_simp
  then have h2: "\<not> (\<exists>payload.
      json_loads (scripted_env ''Sure, this is about NLP.'' (AIMessage ''answer'' []))
        (py_strip (content (AIMessage ''Sure, this is about NLP.'' []))) = Inr (JObj payload) \<and>
      map_of payload ''route'' = Some (JStr ''out_of_domain''))"
    by simp
  have run: "map fst (fst (run_graph MAX_STEPS
      (scripted_env ''Sure, this is about NLP.'' (AIMessage ''answer'' []))
      START (initial_state ''q''))) = [START, Node_llm]"
    by code_simp
  from router_fails_open [OF h1 h2, of MAX_STEPS] run show ?thesis
    by simp
qed

text \<open>
  C7. When the router answers \<open>out_of_domain\<close>, the run enters the refusal node and ends:
  the log has grown by exactly the one fixed refusal message, the LLM node is entered
  zero times, and the outcome is the same whatever the tool-calling chat model would do.
\<close>

theorem out_of_domain_run:
  assumes "route_domain_llm env st = Inr ''out_of_domain''"
  shows "run_graph M env START st
           = ([(START, st), (Node_out_of_domain, st)],
              Inr (st\<lparr>messages := messages st @ [SystemMessage out_of_domain_text],
                      steps := steps st + 1\<rparr>)) \<and>
         length (filter (\<lambda>e. fst e = Node_llm) (fst (run_graph M env START st))) = 0 \<and>
         (\<forall>f. snd (run_graph M (env\<lparr>llm_with_tools_invoke := f\<rparr>) START st)
               = snd (run_graph M env START st))"
proof -
  have "route_domain_llm (env\<lparr>llm_with_tools_invoke := f\<rparr>) st = Inr ''out_of_domain''" for f
    using assms by (simp add: route_domain_llm_update)
  then have "run_graph M (env\<lparr>llm_with_tools_invoke := f\<rparr>) START st
       = ([(START, st), (Node_out_of_domain, st)], Inr (node_out_of_domain st))" for f
    by (rule run_graph_START_out)
  with run_graph_START_out [OF assms, of M] show ?thesis
    by (simp add: node_out_of_domain_def)
qed

theorem out_of_domain_run_witness:
  \<open>run_graph MAX_STEPS (scripted_env ''{"route":"out_of_domain"}'' (AIMessage ''unused'' []))
      START (initial_state ''pizza?'')
     = ([(START, initial_state ''pizza?''), (Node_out_of_domain, initial_state ''pizza?'')],
        Inr \<lparr>messages = [HumanMessage ''pizza?'', SystemMessage out_of_domain_text], steps = 1\<rparr>)\<close>
proof -
  have h: \<open>route_domain_llm (scripted_env ''{"route":"out_of_domain"}'' (AIMessage ''unused'' []))
      (initial_state ''pizza?'') = Inr ''out_of_domain''\<close>
    by code_simp
  from out_of_domain_run [OF h, of MAX_STEPS] show ?thesis
    by (simp add: initial_state_def)
qed

text \<open>
  C9. The refusal node appends exactly one message, a \<open>SystemMessage\<close> (no assistant
  message), and adds exactly 1 to the step count; a run that starts with step count 0
  and is classified \<open>out_of_domain\<close> ends in the state that node returns, with step
  count 1.
\<close>

theorem out_of_domain_node:
  assumes "route_domain_llm env st = Inr ''out_of_domain''" and "steps st = 0"
  shows "messages (node_out_of_domain st) = messages st @ [SystemMessage out_of_domain_text] \<and>
         (\<forall>c tcs. SystemMessage out_of_domain_text \<noteq> AIMessage c tcs) \<and>
         steps (node_out_of_domain st) = steps st + 1 \<and>
         snd (run_graph M env START st) = Inr (node_out_of_domain st) \<and>
         steps (node_out_of_domain st) = 1"
  using assms by (simp add: run_graph_START_out) (simp add: node_out_of_domain_def)

theorem out_of_domain_node_witness:
  \<open>map_sum id steps (snd (run_graph MAX_STEPS
      (scripted_env ''{"route":"out_of_domain"}'' (AIMessage ''unused'' []))
      START (initial_state ''pizza?''))) = Inr 1\<close>
proof -
  have h1: \<open>route_domain_llm (scripted_env ''{"route":"out_of_domain"}'' (AIMessage ''unused'' []))
      (initial_state ''pizza?'') = Inr ''out_of_domain''\<close>
    by code_simp
  have h2: "steps (initial_state ''pizza?'') = 0"
    by (simp add: initial_state_def)
  from out_of_domain_node [OF h1 h2, of MAX_STEPS] show ?thesis
    by simp
qed

text \<open>
  C2, as amended. With a budget of 2, a router answer \<open>in_domain\<close>, step count 0 at the
  start, a chat model whose every answer is an assistant message with at least one tool
  call, and tool calls that do not raise: the run reaches a terminal state after the
  nodes LLM, tools, LLM; the last message of the final log is the answer of the second
  LLM call (it still names tool calls), the tools node is not entered after it, and the
  final step count is 3.
\<close>

theorem scenario_D:
  assumes "\<forall>msgs. \<exists>c tcs. llm_with_tools_invoke env msgs = Inr (AIMessage c tcs) \<and> tcs \<noteq> []"
    and "\<forall>msgs c tcs. llm_with_tools_invoke env msgs = Inr (AIMessage c tcs) \<longrightarrow>
           (\<forall>tc \<in> set tcs. \<not> isl (run_tool_call env tc))"
    and "route_domain_llm env st = Inr ''in_domain''"
    and "steps st = 0"
  shows "\<exists>m1 obs m2.
     llm_with_tools_invoke env (SYSTEM_MESSAGE # messages st) = Inr m1 \<and>
     llm_with_tools_invoke env (SYSTEM_MESSAGE # messages st @ m1 # obs) = Inr m2 \<and>
     (\<exists>tcs. tool_calls m2 = Some tcs \<and> tcs \<noteq> []) \<and>
     run_graph 2 env START st =
       ([(START, st), (Node_llm, st),
         (Node_tools, st\<lparr>messages := messages st @ [m1], steps := 1\<rparr>),
         (Node_llm, st\<lparr>messages := messages st @ m1 # obs, steps := 2\<rparr>)],
        Inr (st\<lparr>messages := messages st @ m1 # obs @ [m2], steps := 3\<rparr>))"
proof -
  from assms(1) obtain c1 tcs1
    where a1: "llm_with_tools_invoke env (SYSTEM_MESSAGE # messages st) = Inr (AIMessage c1 tcs1)"
      and ne1: "tcs1 \<noteq> []"
    by blast
  define m1 where "m1 = AIMessage c1 tcs1"
  define st1 where "st1 = st\<lparr>messages := messages st @ [m1], steps := 1\<rparr>"
  have llm1: "node_llm env st = Inr st1"
    using a1 assms(4) by (simp add: node_llm_def st1_def m1_def)
  have go1: "next_node 2 env Node_llm st1 = Inr Node_tools"
    using ne1 by (cases tcs1) (simp_all add: route_after_llm_def follow_def st1_def m1_def)
  from assms(2) a1 have "\<forall>tc \<in> set tcs1. \<not> isl (run_tool_call env tc)"
    by blast
  then obtain obs where obs: "list_all2 (\<lambda>tc m. run_tool_call env tc = Inr m) tcs1 obs"
    using all_succeed_obs by blast
  define st2 where "st2 = st\<lparr>messages := messages st @ m1 # obs, steps := 2\<rparr>"
  have "messages st1 \<noteq> []" "last (messages st1) = AIMessage c1 tcs1"
    by (simp_all add: st1_def m1_def)
  then have "node_tools env st1
      = Inr (st1\<lparr>messages := messages st1 @ obs, steps := steps st1 + 1\<rparr>)"
    using obs by (auto simp: node_tools_Inr)
  then have tools1: "node_tools env st1 = Inr st2"
    by (simp add: st1_def st2_def)
  from assms(1) obtain c2 tcs2
    where a2: "llm_with_tools_invoke env (SYSTEM_MESSAGE # messages st2) = Inr (AIMessage c2 tcs2)"
      and ne2: "tcs2 \<noteq> []"
    by blast
  define m2 where "m2 = AIMessage c2 tcs2"
  define st3 where "st3 = st\<lparr>messages := messages st @ m1 # obs @ [m2], steps := 3\<rparr>"
  have llm2: "node_llm env st2 = Inr st3"
    using a2 by (simp add: node_llm_def st2_def st3_def m2_def)
  have stop: "next_node 2 env Node_llm st3 = Inr END"
    by (simp add: route_after_llm_def follow_def st3_def)
  have r3: "run_graph 2 env Node_llm st2 = ([(Node_llm, st2)], Inr st3)"
    using llm2 stop by (simp add: run_graph_edge [of Node_llm env st2 st3 2 END] run_graph_END)
  have r2: "run_graph 2 env Node_tools st1 = ([(Node_tools, st1), (Node_llm, st2)], Inr st3)"
    using tools1 r3 by (simp add: run_graph_edge [of Node_tools env st1 st2 2 Node_llm])
  have r1: "run_graph 2 env Node_llm st
      = ([(Node_llm, st), (Node_tools, st1), (Node_llm, st2)], Inr st3)"
    using llm1 go1 r2 by (simp add: run_graph_edge [of Node_llm env st st1 2 Node_tools])
  have r0: "run_graph 2 env START st
      = ([(START, st), (Node_llm, st), (Node_tools, st1), (Node_llm, st2)], Inr st3)"
    using assms(3) r1 by (simp add: run_graph_START_in)
  have "llm_with_tools_invoke env (SYSTEM_MESSAGE # messages st) = Inr m1"
    using a1 by (simp add: m1_def)
  moreover have "llm_with_tools_invoke env (SYSTEM_MESSAGE # messages st @ m1 # obs) = Inr m2"
    using a2 by (simp add: m2_def st2_def)
  moreover have "\<exists>tcs. tool_calls m2 = Some tcs \<and> tcs \<noteq> []"
    using ne2 by (simp add: m2_def)
  ultimately show ?thesis
    using r0 unfolding st1_def st2_def st3_def by blast
qed

theorem scenario_D_witness:
  "map fst (fst (run_graph 2 greedy_env START (initial_state ''q'')))
     = [START, Node_llm, Node_tools, Node_llm] \<and>
   map_sum id steps (snd (run_graph 2 greedy_env START (initial_state ''q''))) = Inr 3 \<and>
   map_sum (\<lambda>e. e) (\<lambda>s. last (messages s)) (snd (run_graph 2 greedy_env START (initial_state ''q'')))
     = Inr (AIMessage [] [ghost_call])"
proof -
  have h1: "\<forall>msgs. \<exists>c tcs. llm_with_tools_invoke greedy_env msgs = Inr (AIMessage c tcs) \<and> tcs \<noteq> []"
    by (simp add: greedy_env_def scripted_env_def)
  have h2: "\<forall>msgs c tcs. llm_with_tools_invoke greedy_env msgs = Inr (AIMessage c tcs) \<longrightarrow>
      (\<forall>tc \<in> set tcs. \<not> isl (run_tool_call greedy_env tc))"
    by (auto simp: greedy_env_def scripted_env_def run_tool_call_def ghost_call_def
                   TOOLS_BY_NAME_def TOOLS_def)
  have h3: "route_domain_llm greedy_env (initial_state ''q'') = Inr ''in_domain''"
    by code_simp
  have h4: "steps (initial_state ''q'') = 0"
    by (simp add: initial_state_def)
  from scenario_D [OF h1 h2 h3 h4] obtain m1 obs m2
    where m2: "llm_with_tools_invoke greedy_env
                 (SYSTEM_MESSAGE # messages (initial_state ''q'') @ m1 # obs) = Inr m2"
      and run: "run_graph 2 greedy_env START (initial_state ''q'') =
       ([(START, initial_state ''q''), (Node_llm, initial_state ''q''),
         (Node_tools, (initial_state ''q'')\<lparr>messages := messages (initial_state ''q'') @ [m1], steps := 1\<rparr>),
         (Node_llm, (initial_state ''q'')\<lparr>messages := messages (initial_state ''q'') @ m1 # obs, steps := 2\<rparr>)],
        Inr ((initial_state ''q'')\<lparr>messages := messages (initial_state ''q'') @ m1 # obs @ [m2], steps := 3\<rparr>))"
    by blast
  from m2 have "m2 = AIMessage [] [ghost_call]"
    by (simp add: greedy_env_def scripted_env_def)
  with run show ?thesis
    by simp
qed

text \<open>
  C2, as stated, fails on the step count: with a budget of 2 and the oracle that always
  asks for a tool, the run ends after the second LLM call with step count 3, not 2.
\<close>

theorem scenario_D_counterexample:
  "map fst (fst (run_graph 2 greedy_env START (initial_state ''q'')))
     = [START, Node_llm, Node_tools, Node_llm] \<and>
   map_sum id steps (snd (run_graph 2 greedy_env START (initial_state ''q''))) = Inr 3 \<and>
   map_sum id steps (snd (run_graph 2 greedy_env START (initial_state ''q''))) \<noteq> Inr 2"
  by code_simp

end
